theory Spec2Isabelle
  imports Main "HOL-Library.Sublist"
begin

section \<open>Values, exceptions and the interpreter state\<close>

text \<open>
  The module \<^verbatim>\<open>deco.py\<close> defines four decorators (\<^verbatim>\<open>countcalls\<close>, \<^verbatim>\<open>memo\<close>,
  \<^verbatim>\<open>n_ary\<close>, \<^verbatim>\<open>trace\<close>) and applies them to three toy functions. A Python call either
  returns a value or raises; a raise is the \<open>Inl\<close> branch of the result. The only
  \<^verbatim>\<open>raise\<close> statement of the module raises \<^verbatim>\<open>TypeError\<close>; the interpreter raises the
  same class for a call that does not fit a signature, for an unhashable argument and
  for a format string that does not fit its arguments. \<open>OtherError\<close> stands for any
  exception raised by user code, which includes the \<^verbatim>\<open>__hash__\<close> and \<^verbatim>\<open>__str__\<close> methods of
  the values passed around.
\<close>

datatype exn = TypeError string | OtherError string

text \<open>
  The decorators keep their state in attributes of function objects:
  \<^verbatim>\<open>wrapper.calls\<close>, \<^verbatim>\<open>wrapper.cache\<close> and \<^verbatim>\<open>real_decorator.depth\<close>. A function object
  is identified by an \<open>ident\<close>; the state maps each identity to the attribute it owns.
  \<open>stdout\<close> holds the texts written by the calls of \<^verbatim>\<open>print\<close>, in order: one call writes
  one line. The cache is a dictionary from the integer
  \<^verbatim>\<open>hash(args)\<close> to the stored result. The record is extensible, so that a wrapped
  function may own further state.
\<close>

type_synonym ident = nat

record 'a state =
  calls :: "ident \<Rightarrow> int"
  cache :: "ident \<Rightarrow> (int \<rightharpoonup> 'a)"
  depth :: "ident \<Rightarrow> int"
  stdout :: "string list"

text \<open>
  A call \<^verbatim>\<open>f(*args, **kwargs)\<close> takes the positional arguments, the keyword arguments
  (a dictionary, in insertion order) and the state, and gives the outcome and the new
  state. A function object carries \<^verbatim>\<open>__name__\<close>, \<^verbatim>\<open>__doc__\<close> (possibly \<^verbatim>\<open>None\<close>) and its
  behaviour when called.
\<close>

type_synonym ('a, 'z) pycall =
  "'a list \<Rightarrow> (string \<times> 'a) list \<Rightarrow> ('a, 'z) state_scheme
     \<Rightarrow> (exn + 'a) \<times> ('a, 'z) state_scheme"

record ('a, 'z) func =
  name :: string
  doc :: "string option"
  call :: "('a, 'z) pycall"

text \<open>
  \<^verbatim>\<open>functools.wraps(func)\<close> applied to a freshly defined \<^verbatim>\<open>wrapper\<close>: the wrapper keeps its
  own behaviour and receives \<^verbatim>\<open>__name__\<close> and \<^verbatim>\<open>__doc__\<close> of \<^verbatim>\<open>func\<close>. (The library also
  copies \<^verbatim>\<open>__module__\<close>, \<^verbatim>\<open>__qualname__\<close> and the attribute dictionary; no code of the
  module reads those copies.)
\<close>

definition wraps :: "('a, 'z) func \<Rightarrow> ('a, 'z) pycall \<Rightarrow> ('a, 'z) func" where
  "wraps func wrapper = \<lparr>name = name func, doc = doc func, call = wrapper\<rparr>"

section \<open>countcalls\<close>

text \<open>
  \<^verbatim>\<open>
  def wrapper(*args, **kwargs):
      result = func(*args, **kwargs)
      wrapper.calls += 1
      return result
  \<close>
  The identity \<open>w\<close> is the function object \<^verbatim>\<open>wrapper\<close> created by this application of
  the decorator.
\<close>

definition countcalls_wrapper :: "ident \<Rightarrow> ('a, 'z) func \<Rightarrow> ('a, 'z) pycall" where
  "countcalls_wrapper w func args kwargs s =
     (case call func args kwargs s of
        (Inl e, s') \<Rightarrow> (Inl e, s')
      | (Inr result, s') \<Rightarrow> (Inr result, s'\<lparr>calls := (calls s')(w := calls s' w + 1)\<rparr>))"

text \<open>Applying the decorator creates the wrapper and sets \<^verbatim>\<open>wrapper.calls = 0\<close>.\<close>

definition countcalls ::
  "ident \<Rightarrow> ('a, 'z) func \<Rightarrow> ('a, 'z) state_scheme \<Rightarrow> ('a, 'z) func \<times> ('a, 'z) state_scheme" where
  "countcalls w func s =
     (wraps func (countcalls_wrapper w func), s\<lparr>calls := (calls s)(w := 0)\<rparr>)"

section \<open>memo\<close>

text \<open>
  \<^verbatim>\<open>
  def wrapper(*args, **kwargs):
      h = hash(args)
      if h not in wrapper.cache:
          wrapper.cache[h] = func(*args, **kwargs)
      result = wrapper.cache[h]
      return result
  \<close>
  The built-in \<^verbatim>\<open>hash\<close> on the argument tuple is a parameter; it raises \<^verbatim>\<open>TypeError\<close> on
  an unhashable argument. The right-hand side of the assignment is evaluated first, in
  the state \<open>s\<close>; the store goes into the dictionary as the call left it.
\<close>

definition memo_wrapper ::
  "('a list \<Rightarrow> exn + int) \<Rightarrow> ident \<Rightarrow> ('a, 'z) func \<Rightarrow> ('a, 'z) pycall" where
  "memo_wrapper hash w func args kwargs s =
     (case hash args of
        Inl e \<Rightarrow> (Inl e, s)
      | Inr h \<Rightarrow>
          (case cache s w h of
             None \<Rightarrow>
               (case call func args kwargs s of
                  (Inl e, s') \<Rightarrow> (Inl e, s')
                | (Inr v, s') \<Rightarrow>
                    (Inr v, s'\<lparr>cache := (cache s')(w := (cache s' w)(h \<mapsto> v))\<rparr>))
           | Some result \<Rightarrow> (Inr result, s)))"

text \<open>Applying the decorator creates the wrapper and sets \<^verbatim>\<open>wrapper.cache = {}\<close>.\<close>

definition memo ::
  "('a list \<Rightarrow> exn + int) \<Rightarrow> ident \<Rightarrow> ('a, 'z) func \<Rightarrow> ('a, 'z) state_scheme
     \<Rightarrow> ('a, 'z) func \<times> ('a, 'z) state_scheme" where
  "memo hash w func s =
     (wraps func (memo_wrapper hash w func), s\<lparr>cache := (cache s)(w := Map.empty)\<rparr>)"

section \<open>n\_ary\<close>

text \<open>
  \<^verbatim>\<open>
  def n_ary_func(function, sequence):
      if len(sequence) == 1:
          return sequence[0]
      elif len(sequence) >= 2:
          return function(sequence[0], n_ary_func(function, sequence[1:]))
      else:
          raise TypeError("%s() of empty sequence" % function.__name__)
  \<close>
  The recursive call is an argument of \<^verbatim>\<open>function(...)\<close>, so it is evaluated first; when
  it raises, \<^verbatim>\<open>function\<close> is not called.
\<close>

fun n_ary_func ::
  "('a, 'z) func \<Rightarrow> 'a list \<Rightarrow> ('a, 'z) state_scheme \<Rightarrow> (exn + 'a) \<times> ('a, 'z) state_scheme" where
  "n_ary_func function [] s = (Inl (TypeError (name function @ ''() of empty sequence'')), s)"
| "n_ary_func function [x] s = (Inr x, s)"
| "n_ary_func function (x # y # ys) s =
     (case n_ary_func function (y # ys) s of
        (Inl e, s') \<Rightarrow> (Inl e, s')
      | (Inr r, s') \<Rightarrow> call function [x, r] [] s')"

text \<open>
  \<^verbatim>\<open>
  def wrapper(*args):
      return n_ary_func(func, args)
  \<close>
  The wrapper has no \<^verbatim>\<open>**kwargs\<close>: the interpreter rejects a call with a keyword
  argument before the body runs, with the message
  \<^verbatim>\<open><name>() got an unexpected keyword argument '<keyword>'\<close>, the keyword in single quotes
  (\<open>CHR 0x27\<close>).
\<close>

definition n_ary_wrapper :: "('a, 'z) func \<Rightarrow> ('a, 'z) pycall" where
  "n_ary_wrapper func args kwargs s =
     (case kwargs of
        [] \<Rightarrow> n_ary_func func args s
      | (k, v) # rest \<Rightarrow>
          (Inl (TypeError (name func @ ''() got an unexpected keyword argument ''
                             @ [CHR 0x27] @ k @ [CHR 0x27])), s))"

definition n_ary :: "('a, 'z) func \<Rightarrow> ('a, 'z) func" where
  "n_ary func = wraps func (n_ary_wrapper func)"

section \<open>trace\<close>

text \<open>\<^verbatim>\<open>indent * real_decorator.depth\<close>: a string repeated; empty for a count below one.\<close>

definition str_mul :: "string \<Rightarrow> int \<Rightarrow> string" where
  "str_mul t k = concat (replicate (nat k) t)"

text \<open>\<^verbatim>\<open>print(a, b, ...)\<close> writes its arguments separated by one space, as one line.\<close>

fun join :: "string list \<Rightarrow> string" where
  "join [] = []"
| "join [x] = x"
| "join (x # y # ys) = x @ '' '' @ join (y # ys)"

definition print :: "string list \<Rightarrow> ('a, 'z) state_scheme \<Rightarrow> ('a, 'z) state_scheme" where
  "print items s = s\<lparr>stdout := stdout s @ [join items]\<rparr>"

text \<open>
  \<^verbatim>\<open>print\<close> converts and writes its arguments one after the other, the separator before
  each but the first. When the conversion of an argument raises, the arguments before it
  and the separator have been written and the end of the line has not: \<open>items\<close> are the
  arguments before the failing one. The unfinished text is kept as an entry of \<open>stdout\<close>.
\<close>

definition print_interrupted ::
  "string list \<Rightarrow> ('a, 'z) state_scheme \<Rightarrow> ('a, 'z) state_scheme" where
  "print_interrupted items s = s\<lparr>stdout := stdout s @ [join items @ '' '']\<rparr>"

text \<open>
  \<^verbatim>\<open>'%s(%s)' % (func.__name__, *args)\<close> and \<^verbatim>\<open>'%s(%s) == ' % (func.__name__, *args)\<close>:
  the format has two places, the tuple has one element more than \<^verbatim>\<open>args\<close>. The operator
  raises \<^verbatim>\<open>TypeError\<close> unless the numbers agree. \<open>str\<close> is the built-in conversion of a
  value to text, a parameter; it raises what the \<^verbatim>\<open>__str__\<close> method of the value raises.
  The name of a function is a string already.
\<close>

definition format_call ::
  "('a \<Rightarrow> exn + string) \<Rightarrow> string \<Rightarrow> string \<Rightarrow> 'a list \<Rightarrow> exn + string" where
  "format_call str ending nm args =
     (case args of
        [] \<Rightarrow> Inl (TypeError ''not enough arguments for format string'')
      | [x] \<Rightarrow>
          (case str x of
             Inl e \<Rightarrow> Inl e
           | Inr text \<Rightarrow> Inr (nm @ ''('' @ text @ '')'' @ ending))
      | x # y # ys \<Rightarrow> Inl (TypeError ''not all arguments converted during string formatting''))"

text \<open>
  \<^verbatim>\<open>
  def wrapper(*args, **kwargs):
      print(indent * real_decorator.depth, '-->', '%s(%s)' % (func.__name__, *args))
      real_decorator.depth += 1
      result = func(*args, **kwargs)
      real_decorator.depth -= 1
      print(indent * real_decorator.depth, '<--', '%s(%s) == ' % (func.__name__, *args),
            result)
      return result
  \<close>
  The identity \<open>d\<close> is the function object \<^verbatim>\<open>real_decorator\<close> returned by \<^verbatim>\<open>trace(indent)\<close>.
  The arguments of a \<^verbatim>\<open>print\<close> are evaluated before it is called, so a format that raises
  prints nothing. The result is converted by the second \<^verbatim>\<open>print\<close> itself, as its last
  argument, after the depth has been lowered.
\<close>

definition trace_wrapper ::
  "('a \<Rightarrow> exn + string) \<Rightarrow> string \<Rightarrow> ident \<Rightarrow> ('a, 'z) func \<Rightarrow> ('a, 'z) pycall" where
  "trace_wrapper str indent d func args kwargs s =
     (case format_call str '''' (name func) args of
        Inl e \<Rightarrow> (Inl e, s)
      | Inr entering \<Rightarrow>
          (let s1 = print [str_mul indent (depth s d), ''-->'', entering] s;
               s2 = s1\<lparr>depth := (depth s1)(d := depth s1 d + 1)\<rparr>
           in case call func args kwargs s2 of
                (Inl e, s3) \<Rightarrow> (Inl e, s3)
              | (Inr result, s3) \<Rightarrow>
                  (let s4 = s3\<lparr>depth := (depth s3)(d := depth s3 d - 1)\<rparr>
                   in case format_call str '' == '' (name func) args of
                        Inl e \<Rightarrow> (Inl e, s4)
                      | Inr exiting \<Rightarrow>
                          (case str result of
                             Inl e \<Rightarrow>
                               (Inl e,
                                print_interrupted
                                  [str_mul indent (depth s4 d), ''<--'', exiting] s4)
                           | Inr text \<Rightarrow>
                               (Inr result,
                                print [str_mul indent (depth s4 d), ''<--'', exiting, text]
                                  s4)))))"

text \<open>\<^verbatim>\<open>real_decorator(func)\<close> sets \<^verbatim>\<open>real_decorator.depth = 0\<close> and returns the wrapper.\<close>

definition trace ::
  "('a \<Rightarrow> exn + string) \<Rightarrow> string \<Rightarrow> ident \<Rightarrow> ('a, 'z) func \<Rightarrow> ('a, 'z) state_scheme
     \<Rightarrow> ('a, 'z) func \<times> ('a, 'z) state_scheme" where
  "trace str indent d func s =
     (wraps func (trace_wrapper str indent d func), s\<lparr>depth := (depth s)(d := 0)\<rparr>)"

section \<open>The decorated functions\<close>

text \<open>
  Binding the arguments of a call to the parameters of \<^verbatim>\<open>def f(p)\<close> and \<^verbatim>\<open>def f(p, q)\<close>:
  each parameter is given once, by position or by keyword, and nothing else is given.
  Any other call raises \<^verbatim>\<open>TypeError\<close> (the interpreter has several messages for it; one
  stands for all).
\<close>

definition signature_error :: "string \<Rightarrow> exn" where
  "signature_error f = TypeError (f @ ''() called with arguments that do not match its signature'')"

fun bind1 :: "string \<Rightarrow> string \<Rightarrow> 'a list \<Rightarrow> (string \<times> 'a) list \<Rightarrow> exn + 'a" where
  "bind1 f p [x] [] = Inr x"
| "bind1 f p [] [(k, x)] = (if k = p then Inr x else Inl (signature_error f))"
| "bind1 f p args kwargs = Inl (signature_error f)"

fun bind2 :: "string \<Rightarrow> string \<Rightarrow> string \<Rightarrow> 'a list \<Rightarrow> (string \<times> 'a) list \<Rightarrow> exn + 'a \<times> 'a" where
  "bind2 f p q [x, y] [] = Inr (x, y)"
| "bind2 f p q [x] [(k, y)] = (if k = q then Inr (x, y) else Inl (signature_error f))"
| "bind2 f p q [] [(k, u), (l, v)] =
     (if k = p \<and> l = q then Inr (u, v)
      else if k = q \<and> l = p then Inr (v, u)
      else Inl (signature_error f))"
| "bind2 f p q args kwargs = Inl (signature_error f)"

text \<open>
  \<^verbatim>\<open>
  @countcalls
  @memo
  @n_ary
  def foo(a, b):
      return a + b
  \<close>
  on integers (Python's unbounded \<^verbatim>\<open>int\<close>). \<open>foo_def\<close> is the undecorated function.
\<close>

definition foo_def :: "(int, 'z) func" where
  "foo_def =
     \<lparr>name = ''foo'', doc = None,
      call = (\<lambda>args kwargs s.
        case bind2 ''foo'' ''a'' ''b'' args kwargs of
          Inl e \<Rightarrow> (Inl e, s)
        | Inr (a, b) \<Rightarrow> (Inr (a + b), s))\<rparr>"

text \<open>
  The three decorator applications, innermost first, with the attributes they set; the
  global \<^verbatim>\<open>foo\<close> is the function returned.
\<close>

definition foo_decorated ::
  "(int list \<Rightarrow> exn + int) \<Rightarrow> ident \<Rightarrow> ident \<Rightarrow> (int, 'z) state_scheme
     \<Rightarrow> (int, 'z) func \<times> (int, 'z) state_scheme" where
  "foo_decorated hash c m s =
     (let folded = n_ary foo_def;
          (memoized, s1) = memo hash m folded s
      in countcalls c memoized s1)"

text \<open>
  The part of \<^verbatim>\<open>main\<close> that exercises \<^verbatim>\<open>foo\<close>:
  \<^verbatim>\<open>
  print(foo(4, 3))
  print(foo(4, 3, 2))
  print(foo(4, 3))
  print("foo was called", foo.calls, "times")
  \<close>
  An exception ends \<^verbatim>\<open>main\<close> where it is raised.
\<close>

definition main_foo ::
  "(int \<Rightarrow> string) \<Rightarrow> ident \<Rightarrow> (int, 'z) func \<Rightarrow> (int, 'z) state_scheme
     \<Rightarrow> (exn + unit) \<times> (int, 'z) state_scheme" where
  "main_foo str c f s =
     (case call f [4, 3] [] s of
        (Inl e, s1) \<Rightarrow> (Inl e, s1)
      | (Inr r1, s1) \<Rightarrow>
          (case call f [4, 3, 2] [] (print [str r1] s1) of
             (Inl e, s2) \<Rightarrow> (Inl e, s2)
           | (Inr r2, s2) \<Rightarrow>
               (case call f [4, 3] [] (print [str r2] s2) of
                  (Inl e, s3) \<Rightarrow> (Inl e, s3)
                | (Inr r3, s3) \<Rightarrow>
                    (let s4 = print [str r3] s3
                     in (Inr (), print [''foo was called'', str (calls s4 c), ''times''] s4)))))"

text \<open>
  \<^verbatim>\<open>
  @countcalls
  @trace("####")
  @memo
  def fib(n):
      """Some doc"""
      return 1 if n <= 1 else fib(n-1) + fib(n-2)
  \<close>
  Inside the body the name \<^verbatim>\<open>fib\<close> is the module's global, which is bound to the
  decorated function: the body takes it as a parameter, the decorator stack is built
  around the body, and the global is the fixed point. The recursion ends because the
  argument decreases down to 1; the interpreter's bound on the depth of the call stack
  is not modelled. The values are integers, whose conversion to text does not raise:
  \<open>str\<close> is the decimal text of an integer, and the trace wrapper receives it as a
  conversion that always succeeds.
\<close>

definition fib_body :: "(int, 'z) pycall \<Rightarrow> (int, 'z) pycall" where
  "fib_body fib args kwargs s =
     (case bind1 ''fib'' ''n'' args kwargs of
        Inl e \<Rightarrow> (Inl e, s)
      | Inr n \<Rightarrow>
          if n \<le> 1 then (Inr 1, s)
          else (case fib [n - 1] [] s of
                  (Inl e, s1) \<Rightarrow> (Inl e, s1)
                | (Inr a, s1) \<Rightarrow>
                    (case fib [n - 2] [] s1 of
                       (Inl e, s2) \<Rightarrow> (Inl e, s2)
                     | (Inr b, s2) \<Rightarrow> (Inr (a + b), s2))))"

definition fib_decorated ::
  "(int list \<Rightarrow> exn + int) \<Rightarrow> (int \<Rightarrow> string) \<Rightarrow> ident \<Rightarrow> ident \<Rightarrow> ident
     \<Rightarrow> (int, 'z) pycall \<Rightarrow> (int, 'z) func" where
  "fib_decorated hash str c d m fib =
     (let raw = \<lparr>name = ''fib'', doc = Some ''Some doc'', call = fib_body fib\<rparr>;
          memoized = wraps raw (memo_wrapper hash m raw);
          traced = wraps memoized (trace_wrapper (\<lambda>v. Inr (str v)) ''####'' d memoized)
      in wraps traced (countcalls_wrapper c traced))"

lemma fib_decorated_cong [fundef_cong]:
  assumes "\<And>n t. bind1 ''fib'' ''n'' args kwargs = Inr n \<Longrightarrow> \<not> n \<le> 1
             \<Longrightarrow> f [n - 1] [] t = g [n - 1] [] t"
    and "\<And>n t. bind1 ''fib'' ''n'' args kwargs = Inr n \<Longrightarrow> \<not> n \<le> 1
             \<Longrightarrow> f [n - 2] [] t = g [n - 2] [] t"
  shows "call (fib_decorated hash str c d m f) args kwargs s
       = call (fib_decorated hash str c d m g) args kwargs s"
proof -
  have "fib_body f args kwargs t = fib_body g args kwargs t" for t
    using assms by (auto simp: fib_body_def split: sum.splits prod.splits)
  then show ?thesis
    by (simp add: fib_decorated_def Let_def wraps_def countcalls_wrapper_def
        trace_wrapper_def memo_wrapper_def split: sum.splits option.splits prod.splits)
qed

function fib ::
  "(int list \<Rightarrow> exn + int) \<Rightarrow> (int \<Rightarrow> string) \<Rightarrow> ident \<Rightarrow> ident \<Rightarrow> ident \<Rightarrow> (int, 'z) pycall" where
  "fib hash str c d m args kwargs s =
     call (fib_decorated hash str c d m (fib hash str c d m)) args kwargs s"
  by pat_completeness auto
termination
proof (relation "measure (\<lambda>(hash, str, c, d, m, args, kwargs, s).
                   case bind1 ''fib'' ''n'' args kwargs of Inr n \<Rightarrow> nat n | Inl e \<Rightarrow> 0)")
qed auto

declare fib.simps [simp del]

text \<open>
  The undecorated function object \<^verbatim>\<open>fib\<close>, with the global name in its body bound to the
  decorated function.
\<close>

definition fib_raw ::
  "(int list \<Rightarrow> exn + int) \<Rightarrow> (int \<Rightarrow> string) \<Rightarrow> ident \<Rightarrow> ident \<Rightarrow> ident \<Rightarrow> (int, 'z) func" where
  "fib_raw hash str c d m =
     \<lparr>name = ''fib'', doc = Some ''Some doc'', call = fib_body (fib hash str c d m)\<rparr>"

text \<open>
  The two lines that the trace wrapper prints for a call \<^verbatim>\<open>fib(n)\<close> entered at depth \<open>k\<close>
  and returning \<open>r\<close>, and what one call of the decorated \<^verbatim>\<open>fib\<close> does to the state: the
  depth is restored, the output grows by the entering line, the lines \<open>inner\<close> of the
  nested calls and the exiting line, the counter grows by half the number of lines, and
  every nested line is indented at least one level deeper.
\<close>

definition entering :: "(int \<Rightarrow> string) \<Rightarrow> int \<Rightarrow> int \<Rightarrow> string" where
  "entering str k n = join [str_mul ''####'' k, ''-->'', ''fib('' @ str n @ '')'']"

definition exiting :: "(int \<Rightarrow> string) \<Rightarrow> int \<Rightarrow> int \<Rightarrow> int \<Rightarrow> string" where
  "exiting str k n r = join [str_mul ''####'' k, ''<--'', ''fib('' @ str n @ '') == '', str r]"

definition fib_post ::
  "(int \<Rightarrow> string) \<Rightarrow> ident \<Rightarrow> ident \<Rightarrow> int \<Rightarrow> (int, 'z) state_scheme \<Rightarrow> int
     \<Rightarrow> (int, 'z) state_scheme \<Rightarrow> string list \<Rightarrow> bool" where
  "fib_post str c d n s r s' inner \<longleftrightarrow>
     depth s' d = depth s d
     \<and> stdout s' = stdout s @ entering str (depth s d) n # inner @ [exiting str (depth s d) n r]
     \<and> 2 * (calls s' c - calls s c) = int (length inner) + 2
     \<and> (\<forall>l \<in> set inner. prefix (str_mul ''####'' (depth s d + 1)) l)"

section \<open>Concrete inputs for the examples\<close>

text \<open>
  A state in which no attribute has been touched and nothing has been printed; a total
  stand-in for the built-in hash on tuples of integers (every such tuple is hashable),
  which combines the hashes of the elements, an integer of small magnitude being its
  own hash except that the hash of \<open>-1\<close> is \<open>-2\<close>, as in the interpreter, so that the
  tuples \<open>(-1,)\<close> and \<open>(-2,)\<close> have the same hash;
  the decimal text of an integer, as \<^verbatim>\<open>str\<close> gives it; and a function that counts how
  often it is entered, in its own attribute, and then raises:
  \<^verbatim>\<open>
  def probe(*args, **kwargs):
      probe.calls += 1
      raise Exception("boom")
  \<close>
\<close>

definition state0 :: "int state" where
  "state0 = \<lparr>calls = (\<lambda>w. 0), cache = (\<lambda>w. Map.empty), depth = (\<lambda>w. 0), stdout = []\<rparr>"

definition hash_int :: "int \<Rightarrow> int" where
  "hash_int x = (if x = - 1 then - 2 else x)"

definition hash_ints :: "int list \<Rightarrow> exn + int" where
  "hash_ints xs = Inr (foldl (\<lambda>acc x. 1000003 * acc + hash_int x) (int (length xs)) xs)"

fun str_nat :: "nat \<Rightarrow> string" where
  "str_nat n =
     (if n < 10 then [''0123456789'' ! n]
      else str_nat (n div 10) @ [''0123456789'' ! (n mod 10)])"

declare str_nat.simps [simp del]

definition str_int :: "int \<Rightarrow> string" where
  "str_int i = (if i < 0 then ''-'' @ str_nat (nat (- i)) else str_nat (nat i))"

definition failing_probe :: "ident \<Rightarrow> ('a, 'z) func" where
  "failing_probe p =
     \<lparr>name = ''probe'', doc = None,
      call = (\<lambda>args kwargs s.
        (Inl (OtherError ''boom''), s\<lparr>calls := (calls s)(p := calls s p + 1)\<rparr>))\<rparr>"

text \<open>
  A memoised recursive function written like \<^verbatim>\<open>fib\<close>, whose recursion passes through two
  arguments with the same hash:
  \<^verbatim>\<open>
  @memo
  def down(n):
      return 0 if n <= -2 else down(n - 1) + 1
  \<close>
  \<open>down_raw\<close> is the undecorated function object, with the global name in its body bound
  to the decorated function.
\<close>

definition down_body :: "(int, 'z) pycall \<Rightarrow> (int, 'z) pycall" where
  "down_body down args kwargs s =
     (case bind1 ''down'' ''n'' args kwargs of
        Inl e \<Rightarrow> (Inl e, s)
      | Inr n \<Rightarrow>
          if n \<le> - 2 then (Inr 0, s)
          else (case down [n - 1] [] s of
                  (Inl e, s1) \<Rightarrow> (Inl e, s1)
                | (Inr a, s1) \<Rightarrow> (Inr (a + 1), s1)))"

definition down_decorated ::
  "(int list \<Rightarrow> exn + int) \<Rightarrow> ident \<Rightarrow> (int, 'z) pycall \<Rightarrow> (int, 'z) func" where
  "down_decorated hash m down =
     (let raw = \<lparr>name = ''down'', doc = None, call = down_body down\<rparr>
      in wraps raw (memo_wrapper hash m raw))"

lemma down_decorated_cong [fundef_cong]:
  assumes "\<And>n t. bind1 ''down'' ''n'' args kwargs = Inr n \<Longrightarrow> \<not> n \<le> - 2
             \<Longrightarrow> f [n - 1] [] t = g [n - 1] [] t"
  shows "call (down_decorated hash m f) args kwargs s
       = call (down_decorated hash m g) args kwargs s"
proof -
  have "down_body f args kwargs t = down_body g args kwargs t" for t
    using assms by (auto simp: down_body_def split: sum.splits prod.splits)
  then show ?thesis
    by (simp add: down_decorated_def Let_def wraps_def memo_wrapper_def
        split: sum.splits option.splits prod.splits)
qed

function down :: "(int list \<Rightarrow> exn + int) \<Rightarrow> ident \<Rightarrow> (int, 'z) pycall" where
  "down hash m args kwargs s =
     call (down_decorated hash m (down hash m)) args kwargs s"
  by pat_completeness auto
termination
proof (relation "measure (\<lambda>(hash, m, args, kwargs, s).
                   case bind1 ''down'' ''n'' args kwargs of
                     Inr n \<Rightarrow> nat (n + 2) | Inl e \<Rightarrow> 0)")
qed auto

declare down.simps [simp del]

definition down_raw :: "(int list \<Rightarrow> exn + int) \<Rightarrow> ident \<Rightarrow> (int, 'z) func" where
  "down_raw hash m = \<lparr>name = ''down'', doc = None, call = down_body (down hash m)\<rparr>"

section \<open>Basic facts\<close>

lemma call_wraps [simp]: "call (wraps f w) = w"
  by (simp add: wraps_def)

lemma name_wraps [simp]: "name (wraps f w) = name f"
  by (simp add: wraps_def)

lemma doc_wraps [simp]: "doc (wraps f w) = doc f"
  by (simp add: wraps_def)

lemma call_n_ary [simp]: "call (n_ary f) args [] s = n_ary_func f args s"
  by (simp add: n_ary_def n_ary_wrapper_def)

lemma name_n_ary [simp]: "name (n_ary f) = name f"
  by (simp add: n_ary_def)

lemma call_foo_def [simp]: "call foo_def [a, b] [] t = (Inr (a + b), t)"
  by (simp add: foo_def_def)

lemma name_foo_def [simp]: "name foo_def = ''foo''"
  by (simp add: foo_def_def)

lemma call_failing_probe [simp]:
  "call (failing_probe p) args kwargs s =
     (Inl (OtherError ''boom''), s\<lparr>calls := (calls s)(p := calls s p + 1)\<rparr>)"
  by (simp add: failing_probe_def)

lemma hash_ints_43 [simp]: "hash_ints [4, 3] = Inr 2000016000033"
  by (simp add: hash_ints_def hash_int_def)

lemma hash_ints_432 [simp]: "hash_ints [4, 3, 2] = Inr 3000031000108000128"
  by (simp add: hash_ints_def hash_int_def)

lemma hash_ints_1 [simp]: "hash_ints [1] = Inr 1000004"
  by (simp add: hash_ints_def hash_int_def)

lemma hash_ints_nil [simp]: "hash_ints [] = Inr 0"
  by (simp add: hash_ints_def hash_int_def)

lemma hash_ints_minus [simp]:
  "hash_ints [- 1] = Inr 1000001" "hash_ints [- 2] = Inr 1000001"
  by (simp_all add: hash_ints_def hash_int_def)

lemma n_ary_func_pure:
  assumes "\<And>a b t. call f [a, b] [] t = (Inr (g a b), t)" and "xs \<noteq> []"
  shows "n_ary_func f xs s = (Inr (foldr g (butlast xs) (last xs)), s)"
  using assms(2)
proof (induction xs arbitrary: s rule: induct_list012)
  case (3 x y zs)
  then show ?case using assms(1) by simp
qed simp_all

lemma memo_wrapper_hit:
  "hash args = Inr h \<Longrightarrow> cache s w h = Some v \<Longrightarrow> memo_wrapper hash w f args kwargs s = (Inr v, s)"
  by (simp add: memo_wrapper_def)

lemma memo_wrapper_returns:
  assumes "memo_wrapper hash w f args kwargs s = (Inr v, s1)"
  shows "\<exists>h. hash args = Inr h \<and> cache s1 w h = Some v
           \<and> (cache s w h = Some v \<and> s1 = s
              \<or> cache s w h = None
                \<and> (\<exists>s'. call f args kwargs s = (Inr v, s')
                      \<and> s1 = s'\<lparr>cache := (cache s')(w := (cache s' w)(h \<mapsto> v))\<rparr>))"
  using assms
  by (auto simp: memo_wrapper_def split: sum.splits option.splits prod.splits)


lemma foo_decorated_eq:
  "foo_decorated hash c m s =
     (wraps (wraps (n_ary foo_def) (memo_wrapper hash m (n_ary foo_def)))
        (countcalls_wrapper c (wraps (n_ary foo_def) (memo_wrapper hash m (n_ary foo_def)))),
      s\<lparr>cache := (cache s)(m := Map.empty), calls := (calls s)(c := 0)\<rparr>)"
  by (simp add: foo_decorated_def memo_def countcalls_def Let_def)

lemma str_int_digits [simp]: "str_int 3 = ''3''" "str_int 7 = ''7''" "str_int 9 = ''9''"
  by (simp_all add: str_int_def str_nat.simps)



lemma memo_wrapper_keeps_entries:
  assumes f: "\<And>r t'. call f args kwargs s = (r, t') \<Longrightarrow> cache s w k = Some u \<Longrightarrow> cache t' w k = Some u"
    and run: "memo_wrapper hash w f args kwargs s = (r, s')"
    and k: "cache s w k = Some u"
  shows "cache s' w k = Some u"
proof (cases "hash args")
  case (Inl e)
  with run k show ?thesis by (simp add: memo_wrapper_def)
next
  case (Inr h)
  show ?thesis
  proof (cases "cache s w h")
    case (Some v)
    with Inr run k show ?thesis by (simp add: memo_wrapper_def)
  next
    case None
    with k have hk: "h \<noteq> k" by auto
    obtain r0 t' where c: "call f args kwargs s = (r0, t')" by (cases "call f args kwargs s")
    from f [OF c k] have "cache t' w k = Some u" .
    with Inr None c run hk show ?thesis
      by (cases r0) (auto simp: memo_wrapper_def)
  qed
qed

section \<open>Facts about the trace output and the recursion of fib\<close>

lemma concat_replicate_snoc: "concat (replicate n t) @ t = t @ concat (replicate n t)"
  by (induction n) simp_all

lemma prefix_str_mul_Suc: "prefix (str_mul t k) (str_mul t (k + 1))"
proof (cases "0 \<le> k")
  case True
  then have "nat (k + 1) = Suc (nat k)" by simp
  then have "str_mul t (k + 1) = str_mul t k @ t"
    by (simp add: str_mul_def concat_replicate_snoc)
  then show ?thesis by simp
next
  case False
  then show ?thesis by (simp add: str_mul_def)
qed

lemma prefix_join: "prefix a (join (a # rest))"
  by (cases rest) simp_all

lemma prefix_entering: "prefix (str_mul ''####'' k) (entering str k n)"
  unfolding entering_def by (rule prefix_join)

lemma prefix_exiting: "prefix (str_mul ''####'' k) (exiting str k n r)"
  unfolding exiting_def by (rule prefix_join)

lemma length_str_mul: "length (str_mul t k) = nat k * length t"
  by (induction "nat k" arbitrary: k) (simp_all add: str_mul_def length_concat sum_list_replicate)

text \<open>One call through the trace and countcalls layers, given what the layer below does.\<close>

lemma trace_wrapper_returns:
  assumes "str x = Inr tx" and "str r = Inr tr"
    and "call f [x] kwargs
             (s\<lparr>stdout := stdout s @ [join [str_mul indent (depth s d), ''-->'',
                                               name f @ ''('' @ tx @ '')'']],
                depth := (depth s)(d := depth s d + 1)\<rparr>) = (Inr r, s3)"
  shows "trace_wrapper str indent d f [x] kwargs s =
           (Inr r, s3\<lparr>depth := (depth s3)(d := depth s3 d - 1),
                      stdout := stdout s3 @ [join [str_mul indent (depth s3 d - 1), ''<--'',
                                         name f @ ''('' @ tx @ '') == '', tr]]\<rparr>)"
  using assms by (simp add: trace_wrapper_def format_call_def Let_def print_def)

lemma name_fib_raw [simp]: "name (fib_raw hash str c d m) = ''fib''"
  by (simp add: fib_raw_def)

lemma fib_unfold:
  "fib hash str c d m args kwargs s =
     countcalls_wrapper c
       (wraps (wraps (fib_raw hash str c d m) (memo_wrapper hash m (fib_raw hash str c d m)))
          (trace_wrapper (\<lambda>v. Inr (str v)) ''####'' d
             (wraps (fib_raw hash str c d m) (memo_wrapper hash m (fib_raw hash str c d m)))))
       args kwargs s"
  by (subst fib.simps) (simp add: fib_decorated_def fib_raw_def Let_def)

lemma fib_layers:
  assumes "memo_wrapper hash m (fib_raw hash str c d m) [n] []
             (s\<lparr>stdout := stdout s @ [entering str (depth s d) n],
                depth := (depth s)(d := depth s d + 1)\<rparr>) = (Inr r, s3)"
  shows "fib hash str c d m [n] [] s =
           (Inr r, s3\<lparr>depth := (depth s3)(d := depth s3 d - 1),
                      stdout := stdout s3 @ [exiting str (depth s3 d - 1) n r],
                      calls := (calls s3)(c := calls s3 c + 1)\<rparr>)"
proof -
  let ?memoized = "wraps (fib_raw hash str c d m) (memo_wrapper hash m (fib_raw hash str c d m))"
  have nm: "name ?memoized = ''fib''" by simp
  have "call ?memoized [n] []
          (s\<lparr>stdout := stdout s @ [join [str_mul ''####'' (depth s d), ''-->'',
                                            name ?memoized @ ''('' @ str n @ '')'']],
             depth := (depth s)(d := depth s d + 1)\<rparr>) = (Inr r, s3)"
    using assms by (simp add: nm entering_def)
  from trace_wrapper_returns [where str = "\<lambda>v. Inr (str v)" and indent = "''####''" and d = d
      and f = ?memoized and x = n and kwargs = "[]" and s = s, OF refl refl this]
  show ?thesis
    by (simp add: fib_unfold countcalls_wrapper_def nm exiting_def)
qed

lemma fib_post_lines:
  assumes "fib_post str c d n s r s' inner"
  shows "\<forall>l \<in> set (entering str (depth s d) n # inner @ [exiting str (depth s d) n r]).
           prefix (str_mul ''####'' (depth s d)) l"
proof -
  have "prefix (str_mul ''####'' (depth s d)) l"
    if "prefix (str_mul ''####'' (depth s d + 1)) l" for l
    using prefix_str_mul_Suc that by (rule prefix_order.trans)
  with assms show ?thesis
    by (auto simp: fib_post_def prefix_entering prefix_exiting)
qed

lemma fib_body_base:
  "n \<le> 1 \<Longrightarrow> fib_body g [n] [] t = (Inr 1, t)"
  by (simp add: fib_body_def)

lemma fib_body_rec:
  "\<not> n \<le> 1 \<Longrightarrow> g [n - 1] [] t = (Inr a, t1) \<Longrightarrow> g [n - 2] [] t1 = (Inr b, t2)
     \<Longrightarrow> fib_body g [n] [] t = (Inr (a + b), t2)"
  by (simp add: fib_body_def)

lemma call_fib_raw [simp]: "call (fib_raw hash str c d m) = fib_body (fib hash str c d m)"
  by (simp add: fib_raw_def)

lemma memo_wrapper_miss:
  "hash args = Inr h \<Longrightarrow> cache s w h = None \<Longrightarrow> call f args kwargs s = (Inr v, s')
     \<Longrightarrow> memo_wrapper hash w f args kwargs s
         = (Inr v, s'\<lparr>cache := (cache s')(w := (cache s' w)(h \<mapsto> v))\<rparr>)"
  by (simp add: memo_wrapper_def)

lemma fib_run_aux:
  "(\<forall>k. \<exists>h. hash [k] = Inr h) \<Longrightarrow> args = [n] \<Longrightarrow> kwargs = []
     \<Longrightarrow> \<exists>r s' inner. fib hash str c d m args kwargs s = (Inr r, s')
                        \<and> fib_post str c d n s r s' inner"
proof (induction hash str c d m args kwargs s arbitrary: n rule: fib.induct)
  case (1 hash str c d m args kwargs s)
  note hashable = "1.prems"(1)
  have args: "args = [n]" "kwargs = []" using "1.prems" by simp_all
  have bind: "bind1 ''fib'' ''n'' args kwargs = Inr n" using args by simp
  let ?t = "s\<lparr>stdout := stdout s @ [entering str (depth s d) n],
               depth := (depth s)(d := depth s d + 1)\<rparr>"
  let ?raw = "fib_raw hash str c d m"
  from hashable obtain h where h: "hash [n] = Inr h" by blast
  have memo: "\<exists>r t' inner. memo_wrapper hash m ?raw [n] [] ?t = (Inr r, t')
               \<and> depth t' d = depth ?t d \<and> stdout t' = stdout ?t @ inner
               \<and> 2 * (calls t' c - calls ?t c) = int (length inner)
               \<and> (\<forall>l \<in> set inner. prefix (str_mul ''####'' (depth ?t d)) l)"
  proof (cases "cache ?t m h")
    case (Some v)
    with h have "memo_wrapper hash m ?raw [n] [] ?t = (Inr v, ?t)"
      by (rule memo_wrapper_hit)
    then show ?thesis by (intro exI [of _ v] exI [of _ ?t] exI [of _ "[]"]) simp
  next
    case None
    show ?thesis
    proof (cases "n \<le> 1")
      case True
      then have "call ?raw [n] [] ?t = (Inr 1, ?t)" by (simp add: fib_body_base)
      with h None have "memo_wrapper hash m ?raw [n] [] ?t
          = (Inr 1, ?t\<lparr>cache := (cache ?t)(m := (cache ?t m)(h \<mapsto> 1))\<rparr>)"
        by (rule memo_wrapper_miss)
      then show ?thesis
        by (intro exI [of _ 1] exI [of _ "?t\<lparr>cache := (cache ?t)(m := (cache ?t m)(h \<mapsto> 1))\<rparr>"]
            exI [of _ "[]"]) simp
    next
      case False
      from "1.IH"(1) [OF bind False hashable refl refl, of ?t]
      obtain a t1 in1 where
        r1: "fib hash str c d m [n - 1] [] ?t = (Inr a, t1)"
        and p1: "fib_post str c d (n - 1) ?t a t1 in1"
        by blast
      from "1.IH"(2) [OF bind False hashable refl refl, of t1]
      obtain b t2 in2 where
        r2: "fib hash str c d m [n - 2] [] t1 = (Inr b, t2)"
        and p2: "fib_post str c d (n - 2) t1 b t2 in2"
        by blast
      let ?l1 = "entering str (depth ?t d) (n - 1) # in1 @ [exiting str (depth ?t d) (n - 1) a]"
      let ?l2 = "entering str (depth t1 d) (n - 2) # in2 @ [exiting str (depth t1 d) (n - 2) b]"
      from False r1 r2 have "call ?raw [n] [] ?t = (Inr (a + b), t2)"
        by (simp add: fib_body_rec)
      with h None have run: "memo_wrapper hash m ?raw [n] [] ?t
          = (Inr (a + b), t2\<lparr>cache := (cache t2)(m := (cache t2 m)(h \<mapsto> a + b))\<rparr>)"
        by (rule memo_wrapper_miss)
      have d1: "depth t1 d = depth ?t d" and d2: "depth t2 d = depth t1 d"
        using p1 p2 by (simp_all add: fib_post_def)
      have o1: "stdout t1 = stdout ?t @ ?l1" and o2: "stdout t2 = stdout t1 @ ?l2"
        using p1 p2 by (simp_all add: fib_post_def)
      have c1: "2 * (calls t1 c - calls ?t c) = int (length in1) + 2"
        and c2: "2 * (calls t2 c - calls t1 c) = int (length in2) + 2"
        using p1 p2 by (simp_all add: fib_post_def)
      have l1: "\<forall>l \<in> set ?l1. prefix (str_mul ''####'' (depth ?t d)) l"
        using fib_post_lines [OF p1] .
      have l2: "\<forall>l \<in> set ?l2. prefix (str_mul ''####'' (depth ?t d)) l"
        using fib_post_lines [OF p2] d1 by simp
      have "depth t2 d = depth ?t d" using d1 d2 by simp
      moreover have "stdout t2 = stdout ?t @ (?l1 @ ?l2)" using o1 o2 by simp
      moreover have "2 * (calls t2 c - calls ?t c) = int (length (?l1 @ ?l2))"
        using c1 c2 by simp
      moreover have "\<forall>l \<in> set (?l1 @ ?l2). prefix (str_mul ''####'' (depth ?t d)) l"
        using l1 l2 by (simp only: set_append ball_Un)
      ultimately show ?thesis
        using run
        by (intro exI [of _ "a + b"]
            exI [of _ "t2\<lparr>cache := (cache t2)(m := (cache t2 m)(h \<mapsto> a + b))\<rparr>"]
            exI [of _ "?l1 @ ?l2"]) simp
    qed
  qed
  then obtain r t' inner where
    run: "memo_wrapper hash m ?raw [n] [] ?t = (Inr r, t')"
    and dep: "depth t' d = depth ?t d"
    and out: "stdout t' = stdout ?t @ inner"
    and cnt: "2 * (calls t' c - calls ?t c) = int (length inner)"
    and pre: "\<forall>l \<in> set inner. prefix (str_mul ''####'' (depth ?t d)) l"
    by blast
  let ?s' = "t'\<lparr>depth := (depth t')(d := depth t' d - 1),
                 stdout := stdout t' @ [exiting str (depth t' d - 1) n r],
                 calls := (calls t')(c := calls t' c + 1)\<rparr>"
  from fib_layers [OF run] have res: "fib hash str c d m [n] [] s = (Inr r, ?s')" .
  have "fib_post str c d n s r ?s' inner"
    using dep out cnt pre by (simp add: fib_post_def)
  with res args show ?case by blast
qed

lemma fib_run:
  assumes "\<forall>k. \<exists>h. hash [k] = Inr h"
  shows "\<exists>r s' inner. fib hash str c d m [n] [] s = (Inr r, s')
                        \<and> fib_post str c d n s r s' inner"
  using assms by (rule fib_run_aux) simp_all

lemma hash_ints_total: "\<forall>k. \<exists>h. hash_ints [k] = Inr h"
  by (simp add: hash_ints_def)

text \<open>The call \<^verbatim>\<open>fib(3)\<close> of \<^verbatim>\<open>main\<close>, from a fresh state.\<close>

lemma fib_3_run: "fst (fib hash_ints str_int 0 0 0 [3] [] state0) = Inr 3 \<and> calls (snd (fib hash_ints str_int 0 0 0 [3] [] state0)) 0 = 5
  \<and> stdout (snd (fib hash_ints str_int 0 0 0 [3] [] state0)) =
  ['' --> fib(3)'', ''#### --> fib(2)'', ''######## --> fib(1)'',
   ''######## <-- fib(1) ==  1'', ''######## --> fib(0)'',
   ''######## <-- fib(0) ==  1'', ''#### <-- fib(2) ==  2'',
   ''#### --> fib(1)'', ''#### <-- fib(1) ==  1'', '' <-- fib(3) ==  3'']"
  by (simp add: fib.simps fib_decorated_def Let_def countcalls_wrapper_def trace_wrapper_def
      memo_wrapper_def fib_body_def format_call_def print_def state0_def hash_ints_def
      hash_int_def
      str_int_def str_nat.simps str_mul_def eval_nat_numeral)

section \<open>The n-ary fold\<close>

text \<open>
  C1. For every binary function \<open>f\<close>, the wrapper \<open>n_ary f\<close> called with one or more
  positional arguments computes the right fold of \<open>f\<close> over them: one argument is
  returned as it is, two arguments give \<open>f(x, y)\<close>, and more give
  \<open>f(x1, f'(x2, ..., xn))\<close>, the inner call first and an exception of the inner call
  passed on. When \<open>f\<close> is a pure function \<open>g\<close> the result is
  \<open>foldr g [x1, ..., x(n-1)] xn\<close>.
\<close>

theorem n_ary_right_fold:
  "call (n_ary f) [x] [] s = (Inr x, s)
   \<and> call (n_ary f) [x, y] [] s = call f [x, y] [] s
   \<and> call (n_ary f) (x # y # ys) [] s =
       (case call (n_ary f) (y # ys) [] s of
          (Inl e, s') \<Rightarrow> (Inl e, s')
        | (Inr r, s') \<Rightarrow> call f [x, r] [] s')
   \<and> ((\<forall>a b t. call f [a, b] [] t = (Inr (g a b), t)) \<and> xs \<noteq> []
        \<longrightarrow> call (n_ary f) xs [] s = (Inr (foldr g (butlast xs) (last xs)), s))"
  by (simp add: n_ary_func_pure)

text \<open>\<^verbatim>\<open>n_ary(foo)(4, 3, 2)\<close> is \<open>4 + (3 + 2)\<close>.\<close>

theorem n_ary_right_fold_witness:
  "(\<forall>a b (t :: int state). call foo_def [a, b] [] t = (Inr (a + b), t))
   \<and> [4, 3, 2] \<noteq> ([] :: int list)
   \<and> call (n_ary foo_def) [4, 3, 2] [] state0 = (Inr 9, state0)"
proof -
  have h: "(\<forall>a b (t :: int state). call foo_def [a, b] [] t = (Inr (a + b), t))
           \<and> [4, 3, 2] \<noteq> ([] :: int list)"
    by simp
  from n_ary_right_fold [of foo_def 4 state0 3 "[2]" "(+)" "[4, 3, 2]"] h
  show ?thesis by simp
qed

section \<open>Errors raised by the wrappers\<close>




section \<open>Memoisation\<close>

text \<open>
  The claim C2 as it is written, "for every deterministic function, two calls with the
  same argument tuple invoke the function at most once and return equal results", fails
  for a function that raises: nothing is stored when the call raises, so the second call
  enters the function again. Here the probe is entered twice and neither call returns.
\<close>

theorem memo_twice_raising_counterexample:
  "fst (memo_wrapper hash_ints 0 (failing_probe 1) [1] [] state0) = Inl (OtherError ''boom'')
   \<and> calls (snd (memo_wrapper hash_ints 0 (failing_probe 1) [1] []
               (snd (memo_wrapper hash_ints 0 (failing_probe 1) [1] [] state0)))) 1 = 2"
  by (simp add: memo_wrapper_def state0_def)

text \<open>
  C2 (amended). For every function \<open>f\<close>, if a call of the memoised wrapper returns
  normally with \<open>v\<close>, then a second call with the same argument tuple returns \<open>v\<close> again
  and does not invoke \<open>f\<close>: it leaves the whole state as it is and gives the same outcome
  whatever function is wrapped. The first call either was answered from the cache
  (state unchanged) or invoked \<open>f\<close> once and stored its result.
\<close>

theorem memo_twice:
  assumes "memo_wrapper hash w f args kwargs s = (Inr v, s1)"
  shows "memo_wrapper hash w f args kwargs s1 = (Inr v, s1)
         \<and> (\<forall>g. memo_wrapper hash w g args kwargs s1 = (Inr v, s1))
         \<and> (s1 = s
            \<or> (\<exists>h s'. hash args = Inr h \<and> call f args kwargs s = (Inr v, s')
                  \<and> s1 = s'\<lparr>cache := (cache s')(w := (cache s' w)(h \<mapsto> v))\<rparr>))"
proof -
  from memo_wrapper_returns [OF assms] obtain h where
    h: "hash args = Inr h" "cache s1 w h = Some v"
    and first: "cache s w h = Some v \<and> s1 = s
       \<or> cache s w h = None
         \<and> (\<exists>s'. call f args kwargs s = (Inr v, s')
               \<and> s1 = s'\<lparr>cache := (cache s')(w := (cache s' w)(h \<mapsto> v))\<rparr>)"
    by blast
  have "memo_wrapper hash w g args kwargs s1 = (Inr v, s1)" for g
    using h by (rule memo_wrapper_hit)
  moreover from first h(1) have "s1 = s
      \<or> (\<exists>h s'. hash args = Inr h \<and> call f args kwargs s = (Inr v, s')
            \<and> s1 = s'\<lparr>cache := (cache s')(w := (cache s' w)(h \<mapsto> v))\<rparr>)"
    by blast
  ultimately show ?thesis by blast
qed

text \<open>\<^verbatim>\<open>memo(n_ary(foo))(4, 3)\<close> twice, from an empty cache.\<close>

theorem memo_twice_witness:
  "memo_wrapper hash_ints 0 (n_ary foo_def) [4, 3] [] state0
     = (Inr 7, state0\<lparr>cache := (cache state0)(0 := (cache state0 0)(2000016000033 \<mapsto> 7))\<rparr>)
   \<and> memo_wrapper hash_ints 0 (n_ary foo_def) [4, 3] []
       (state0\<lparr>cache := (cache state0)(0 := (cache state0 0)(2000016000033 \<mapsto> 7))\<rparr>)
     = (Inr 7, state0\<lparr>cache := (cache state0)(0 := (cache state0 0)(2000016000033 \<mapsto> 7))\<rparr>)"
proof -
  have first: "memo_wrapper hash_ints 0 (n_ary foo_def) [4, 3] [] state0
     = (Inr 7, state0\<lparr>cache := (cache state0)(0 := (cache state0 0)(2000016000033 \<mapsto> 7))\<rparr>)"
    by (simp add: memo_wrapper_def state0_def)
  from memo_twice [OF first] first show ?thesis by blast
qed




text \<open>
  The claim C6 says that an entry, once computed, is never overwritten. The wrapper looks
  the key up before it calls the wrapped function and stores the result after the call,
  whatever the cache holds under the key by then. In \<^verbatim>\<open>down(-1)\<close> the nested call
  \<^verbatim>\<open>down(-2)\<close> has the same hash; it computes and stores 0 while the outer call is
  running, and the outer call then stores 1 over it.
\<close>

theorem memo_overwrite_counterexample:
  "hash_ints [- 1] = Inr 1000001 \<and> hash_ints [- 2] = Inr 1000001
   \<and> down hash_ints 0 [- 2] [] state0
       = (Inr 0, state0\<lparr>cache := (cache state0)(0 := [1000001 \<mapsto> 0])\<rparr>)
   \<and> call (down_raw hash_ints 0) [- 1] [] state0
       = (Inr 1, state0\<lparr>cache := (cache state0)(0 := [1000001 \<mapsto> 0])\<rparr>)
   \<and> memo_wrapper hash_ints 0 (down_raw hash_ints 0) [- 1] [] state0
       = (Inr 1, state0\<lparr>cache := (cache state0)(0 := [1000001 \<mapsto> 1])\<rparr>)
   \<and> down hash_ints 0 [- 1] [] state0
       = (Inr 1, state0\<lparr>cache := (cache state0)(0 := [1000001 \<mapsto> 1])\<rparr>)"
  by (simp add: down.simps down_decorated_def down_raw_def down_body_def memo_wrapper_def
      Let_def state0_def)

text \<open>
  C6 (amended). A call of the memoised wrapper whose key is already in the cache returns
  the stored value and changes nothing, so it leaves every cache entry as it is. A call
  whose key is not in the cache calls the wrapped function and, when that returns,
  stores the result under the key in the cache as the call left it, over whatever the
  call itself may have put there. The wrapper removes nothing and writes no other key:
  an entry that was present before a call is still there after it, provided the call of
  the wrapped function keeps it.
\<close>

theorem memo_cache_stable:
  "(hash args = Inr h \<and> cache s w h = Some v
      \<longrightarrow> memo_wrapper hash w f args kwargs s = (Inr v, s))
   \<and> (hash args = Inr h \<and> cache s w h = None \<and> call f args kwargs s = (Inr v, t)
      \<longrightarrow> memo_wrapper hash w f args kwargs s
            = (Inr v, t\<lparr>cache := (cache t)(w := (cache t w)(h \<mapsto> v))\<rparr>))
   \<and> ((\<forall>r t'. call f args kwargs s = (r, t') \<longrightarrow> cache t' w k = Some u)
       \<and> memo_wrapper hash w f args kwargs s = (r, s') \<and> cache s w k = Some u
      \<longrightarrow> cache s' w k = Some u)"
proof (intro conjI impI)
  assume "hash args = Inr h \<and> cache s w h = Some v"
  then show "memo_wrapper hash w f args kwargs s = (Inr v, s)"
    by (simp add: memo_wrapper_hit)
next
  assume "hash args = Inr h \<and> cache s w h = None \<and> call f args kwargs s = (Inr v, t)"
  then show "memo_wrapper hash w f args kwargs s
            = (Inr v, t\<lparr>cache := (cache t)(w := (cache t w)(h \<mapsto> v))\<rparr>)"
    by (simp add: memo_wrapper_miss)
next
  assume a: "(\<forall>r t'. call f args kwargs s = (r, t') \<longrightarrow> cache t' w k = Some u)
       \<and> memo_wrapper hash w f args kwargs s = (r, s') \<and> cache s w k = Some u"
  then have f: "\<And>r t'. call f args kwargs s = (r, t') \<Longrightarrow> cache s w k = Some u
                  \<Longrightarrow> cache t' w k = Some u"
    by simp
  from a have run: "memo_wrapper hash w f args kwargs s = (r, s')" and k: "cache s w k = Some u"
    by simp_all
  from f run k show "cache s' w k = Some u" by (rule memo_wrapper_keeps_entries)
qed

text \<open>
  With \<open>(4, 3)\<close> cached: a repeated call changes nothing, and a call with \<open>(4, 3, 2)\<close>
  adds its entry and keeps the one of \<open>(4, 3)\<close>.
\<close>

theorem memo_cache_stable_witness:
  "hash_ints [4, 3] = Inr 2000016000033
   \<and> memo_wrapper hash_ints 0 (n_ary foo_def) [4, 3] []
        (state0\<lparr>cache := (cache state0)(0 := [2000016000033 \<mapsto> 7])\<rparr>)
       = (Inr 7, state0\<lparr>cache := (cache state0)(0 := [2000016000033 \<mapsto> 7])\<rparr>)
   \<and> hash_ints [4, 3, 2] = Inr 3000031000108000128
   \<and> memo_wrapper hash_ints 0 (n_ary foo_def) [4, 3, 2] []
        (state0\<lparr>cache := (cache state0)(0 := [2000016000033 \<mapsto> 7])\<rparr>)
       = (Inr 9, state0\<lparr>cache := (cache state0)
            (0 := [2000016000033 \<mapsto> 7, 3000031000108000128 \<mapsto> 9])\<rparr>)
   \<and> cache (snd (memo_wrapper hash_ints 0 (n_ary foo_def) [4, 3, 2] []
                  (state0\<lparr>cache := (cache state0)(0 := [2000016000033 \<mapsto> 7])\<rparr>)))
         0 2000016000033 = Some 7"
proof -
  let ?f = "n_ary foo_def :: (int, unit) func"
  let ?s = "state0\<lparr>cache := (cache state0)(0 := [2000016000033 \<mapsto> 7])\<rparr>"
  have hit: "hash_ints [4, 3] = Inr 2000016000033 \<and> cache ?s 0 2000016000033 = Some 7"
    by simp
  have miss: "hash_ints [4, 3, 2] = Inr 3000031000108000128
      \<and> cache ?s 0 3000031000108000128 = None \<and> call ?f [4, 3, 2] [] ?s = (Inr 9, ?s)"
    by (simp add: state0_def)
  have pure: "\<forall>r t'. call ?f [4, 3, 2] [] ?s = (r, t')
                \<longrightarrow> cache t' 0 2000016000033 = Some 7"
    by simp
  obtain r s' where run: "memo_wrapper hash_ints 0 ?f [4, 3, 2] [] ?s = (r, s')"
    by (cases "memo_wrapper hash_ints 0 ?f [4, 3, 2] [] ?s")
  from memo_cache_stable [where hash = hash_ints and args = "[4, 3]" and h = 2000016000033
      and s = ?s and w = 0 and v = 7 and f = ?f and kwargs = "[]"] hit
  have first: "memo_wrapper hash_ints 0 ?f [4, 3] [] ?s = (Inr 7, ?s)"
    by blast
  from memo_cache_stable [where hash = hash_ints and args = "[4, 3, 2]"
      and h = 3000031000108000128 and s = ?s and w = 0 and v = 9 and f = ?f and kwargs = "[]"
      and t = ?s and k = 2000016000033 and u = 7 and r = r and s' = s'] miss pure run hit
  have second: "memo_wrapper hash_ints 0 ?f [4, 3, 2] [] ?s
      = (Inr 9, ?s\<lparr>cache := (cache ?s)(0 := (cache ?s 0)(3000031000108000128 \<mapsto> 9))\<rparr>)"
    and kept: "cache s' 0 2000016000033 = Some 7"
    by blast+
  from second have second': "memo_wrapper hash_ints 0 ?f [4, 3, 2] [] ?s
       = (Inr 9, state0\<lparr>cache := (cache state0)
            (0 := [2000016000033 \<mapsto> 7, 3000031000108000128 \<mapsto> 9])\<rparr>)"
    by (simp add: state0_def)
  from hit miss first second' kept run show ?thesis by simp
qed

section \<open>Call counting\<close>

text \<open>
  C10. When the function wrapped by \<open>countcalls\<close> raises, the wrapper passes the exception
  on and adds nothing to its counter: the state is the one the wrapped function left,
  so the counter counts the calls that returned, not the calls that were made.
\<close>

theorem countcalls_raise_leaves_counter:
  assumes "call f args kwargs s = (Inl e, s')"
  shows "call (fst (countcalls w f s0)) args kwargs s = (Inl e, s')
         \<and> calls (snd (call (fst (countcalls w f s0)) args kwargs s)) w = calls s' w"
  using assms by (simp add: countcalls_def countcalls_wrapper_def)

text \<open>\<^verbatim>\<open>countcalls(n_ary(foo))()\<close> raises and the counter stays at \<open>0\<close>.\<close>

theorem countcalls_raise_leaves_counter_witness:
  "call (n_ary foo_def) [] [] (snd (countcalls 0 (n_ary foo_def) state0))
     = (Inl (TypeError ''foo() of empty sequence''), snd (countcalls 0 (n_ary foo_def) state0))
   \<and> call (fst (countcalls 0 (n_ary foo_def) state0)) [] [] (snd (countcalls 0 (n_ary foo_def) state0))
     = (Inl (TypeError ''foo() of empty sequence''), snd (countcalls 0 (n_ary foo_def) state0))
   \<and> calls (snd (call (fst (countcalls 0 (n_ary foo_def) state0)) [] []
                    (snd (countcalls 0 (n_ary foo_def) state0)))) 0 = 0"
proof -
  have h: "call (n_ary foo_def) [] [] (snd (countcalls 0 (n_ary foo_def) (state0 :: int state)))
     = (Inl (TypeError ''foo() of empty sequence''), snd (countcalls 0 (n_ary foo_def) state0))"
    by simp
  have z: "calls (snd (countcalls 0 (n_ary foo_def) (state0 :: int state))) 0 = 0"
    by (simp add: countcalls_def)
  from countcalls_raise_leaves_counter [OF h, of 0 state0] h z show ?thesis by simp
qed

text \<open>
  The claim C4 says that the counter advances by exactly one on every invocation of the
  wrapper. The increment comes after the wrapped call, so an invocation that raises does
  not count: \<^verbatim>\<open>foo()\<close> is an invocation of the wrapper and leaves the counter at 0.
\<close>

theorem countcalls_raise_counterexample:
  "fst (call (fst (foo_decorated hash_ints 0 0 state0)) [] []
          (snd (foo_decorated hash_ints 0 0 state0)))
     = Inl (TypeError ''foo() of empty sequence'')
   \<and> calls (snd (foo_decorated hash_ints 0 0 state0)) 0 = 0
   \<and> calls (snd (call (fst (foo_decorated hash_ints 0 0 state0)) [] []
                   (snd (foo_decorated hash_ints 0 0 state0)))) 0 = 0"
  by (simp add: foo_decorated_def memo_def countcalls_def Let_def countcalls_wrapper_def
      memo_wrapper_def state0_def)

text \<open>
  C4 (amended). Every invocation of a \<open>countcalls\<close> wrapper that returns normally advances
  its counter by exactly one, after the wrapped call, and returns the result unchanged.
  This includes the recursive self-calls of \<^verbatim>\<open>fib\<close>, which go through the global name and
  so through the whole decorator stack: a call \<^verbatim>\<open>fib(n)\<close> returns (integers being
  hashable), and since the trace wrapper below \<open>countcalls\<close> prints two lines for each
  invocation, cached or not, the counter advances by half the number of lines printed,
  that is by one for each invocation, and by at least one.
\<close>

theorem countcalls_counts_returns:
  "(call f args kwargs s = (Inr r, s1)
      \<longrightarrow> call (fst (countcalls w f s0)) args kwargs s
            = (Inr r, s1\<lparr>calls := (calls s1)(w := calls s1 w + 1)\<rparr>))
   \<and> ((\<forall>k. \<exists>h. hash [k] = Inr h)
      \<longrightarrow> (\<exists>v t' lines. fib hash str c d m [n] [] t = (Inr v, t')
             \<and> stdout t' = stdout t @ lines
             \<and> 2 * (calls t' c - calls t c) = int (length lines)
             \<and> calls t c + 1 \<le> calls t' c))"
proof (intro conjI impI)
  assume "call f args kwargs s = (Inr r, s1)"
  then show "call (fst (countcalls w f s0)) args kwargs s
      = (Inr r, s1\<lparr>calls := (calls s1)(w := calls s1 w + 1)\<rparr>)"
    by (simp add: countcalls_def countcalls_wrapper_def)
next
  assume "\<forall>k. \<exists>h. hash [k] = Inr h"
  from fib_run [OF this, of str c d m n t] obtain v t' inner where
    run: "fib hash str c d m [n] [] t = (Inr v, t')"
    and post: "fib_post str c d n t v t' inner"
    by blast
  let ?lines = "entering str (depth t d) n # inner @ [exiting str (depth t d) n v]"
  from post have "stdout t' = stdout t @ ?lines"
    and "2 * (calls t' c - calls t c) = int (length ?lines)"
    and "calls t c + 1 \<le> calls t' c"
    by (simp_all add: fib_post_def)
  with run show "\<exists>v t' lines. fib hash str c d m [n] [] t = (Inr v, t')
             \<and> stdout t' = stdout t @ lines
             \<and> 2 * (calls t' c - calls t c) = int (length lines)
             \<and> calls t c + 1 \<le> calls t' c"
    by blast
qed

text \<open>
  \<^verbatim>\<open>countcalls(n_ary(foo))(4, 3)\<close>, and \<^verbatim>\<open>fib(3)\<close> as \<^verbatim>\<open>main\<close> calls it: five invocations,
  ten lines.
\<close>

theorem countcalls_counts_returns_witness:
  "call (n_ary foo_def) [4, 3] [] state0 = (Inr 7, state0)
   \<and> call (fst (countcalls 0 (n_ary foo_def) state0)) [4, 3] [] state0
       = (Inr 7, state0\<lparr>calls := (calls state0)(0 := calls state0 0 + 1)\<rparr>)
   \<and> (\<forall>k. \<exists>h. hash_ints [k] = Inr h)
   \<and> (\<exists>v t' lines. fib hash_ints str_int 0 0 0 [3] [] state0 = (Inr v, t')
         \<and> stdout t' = stdout state0 @ lines
         \<and> 2 * (calls t' 0 - calls state0 0) = int (length lines)
         \<and> calls state0 0 + 1 \<le> calls t' 0)
   \<and> calls (snd (fib hash_ints str_int 0 0 0 [3] [] state0)) 0 = 5
   \<and> length (stdout (snd (fib hash_ints str_int 0 0 0 [3] [] state0))) = 10"
proof -
  have r: "call (n_ary foo_def) [4, 3] [] state0 = (Inr 7, state0)" by simp
  from countcalls_counts_returns [where f = "n_ary foo_def" and args = "[4, 3]" and kwargs = "[]"
      and s = state0 and r = 7 and ?s1.0 = state0 and w = 0 and ?s0.0 = state0
      and hash = hash_ints and str = str_int and c = 0 and d = 0 and m = 0 and n = 3
      and t = state0] r hash_ints_total
  have "call (fst (countcalls 0 (n_ary foo_def) state0)) [4, 3] [] state0
       = (Inr 7, state0\<lparr>calls := (calls state0)(0 := calls state0 0 + 1)\<rparr>)"
    and "\<exists>v t' lines. fib hash_ints str_int 0 0 0 [3] [] state0 = (Inr v, t')
         \<and> stdout t' = stdout state0 @ lines
         \<and> 2 * (calls t' 0 - calls state0 0) = int (length lines)
         \<and> calls state0 0 + 1 \<le> calls t' 0"
    by blast+
  with r hash_ints_total fib_3_run show ?thesis by simp
qed

section \<open>The example of main\<close>

text \<open>
  The claim C3 says that the counter of \<^verbatim>\<open>foo\<close> does not advance on the repeated call
  \<^verbatim>\<open>foo(4, 3)\<close>. It does: \<open>countcalls\<close> is the outermost decorator, so it counts every
  call of \<^verbatim>\<open>foo\<close> that returns, whether \<open>memo\<close> below it answers from the cache or not.
  \<^verbatim>\<open>main\<close> prints \<^verbatim>\<open>foo was called 3 times\<close>.
\<close>

theorem foo_counter_counterexample:
  "stdout (snd (main_foo str_int 0 (fst (foo_decorated hash_ints 0 0 state0))
                  (snd (foo_decorated hash_ints 0 0 state0))))
     = [''7'', ''9'', ''7'', ''foo was called 3 times'']
   \<and> calls (snd (main_foo str_int 0 (fst (foo_decorated hash_ints 0 0 state0))
                  (snd (foo_decorated hash_ints 0 0 state0)))) 0 = 3"
  by (simp add: main_foo_def foo_decorated_eq countcalls_wrapper_def memo_wrapper_def
      print_def state0_def)

text \<open>
  C3 (amended). With \<^verbatim>\<open>foo = countcalls(memo(n_ary(foo)))\<close> freshly decorated, and the
  tuples \<open>(4, 3)\<close> and \<open>(4, 3, 2)\<close> hashing to different keys, the calls \<^verbatim>\<open>foo(4, 3)\<close>,
  \<^verbatim>\<open>foo(4, 3, 2)\<close>, \<^verbatim>\<open>foo(4, 3)\<close> return 7, 9 and 7, and the counter reads 1, 2 and 3
  after them: it advances on every call. The cache gains one entry on each of the first
  two calls; the third call changes nothing but the counter.
\<close>

theorem foo_example:
  assumes "hash [4, 3] = Inr h1" and "hash [4, 3, 2] = Inr h2" and "h1 \<noteq> h2"
  shows "\<exists>s1 s2 s3.
           call (fst (foo_decorated hash c m s)) [4, 3] [] (snd (foo_decorated hash c m s))
             = (Inr 7, s1)
         \<and> call (fst (foo_decorated hash c m s)) [4, 3, 2] [] s1 = (Inr 9, s2)
         \<and> call (fst (foo_decorated hash c m s)) [4, 3] [] s2 = (Inr 7, s3)
         \<and> calls (snd (foo_decorated hash c m s)) c = 0
         \<and> calls s1 c = 1 \<and> calls s2 c = 2 \<and> calls s3 c = 3
         \<and> cache (snd (foo_decorated hash c m s)) m = Map.empty
         \<and> cache s1 m = [h1 \<mapsto> 7] \<and> cache s2 m = [h1 \<mapsto> 7, h2 \<mapsto> 9]
         \<and> s3 = s2\<lparr>calls := (calls s2)(c := 3)\<rparr>"
  using assms
  by (simp add: foo_decorated_eq countcalls_wrapper_def memo_wrapper_def)

text \<open>The same with the stand-in hash, from the fresh state.\<close>

theorem foo_example_witness:
  "hash_ints [4, 3] = Inr 2000016000033 \<and> hash_ints [4, 3, 2] = Inr 3000031000108000128
   \<and> (2000016000033 :: int) \<noteq> 3000031000108000128
   \<and> (\<exists>s1 s2 s3.
         call (fst (foo_decorated hash_ints 0 0 state0)) [4, 3] []
            (snd (foo_decorated hash_ints 0 0 state0)) = (Inr 7, s1)
       \<and> call (fst (foo_decorated hash_ints 0 0 state0)) [4, 3, 2] [] s1 = (Inr 9, s2)
       \<and> call (fst (foo_decorated hash_ints 0 0 state0)) [4, 3] [] s2 = (Inr 7, s3)
       \<and> calls s1 0 = 1 \<and> calls s2 0 = 2 \<and> calls s3 0 = 3)"
proof -
  have h: "hash_ints [4, 3] = Inr 2000016000033"
    "hash_ints [4, 3, 2] = Inr 3000031000108000128"
    "(2000016000033 :: int) \<noteq> 3000031000108000128"
    by simp_all
  from foo_example [OF h, of 0 0 state0] h show ?thesis by blast
qed

section \<open>Tracing\<close>

text \<open>
  The claim C7 says that after any call of the traced wrapper the depth is what it was
  before. The decrement follows the wrapped call without any handler, so a call in which
  the wrapped function raises leaves the depth one higher.
\<close>

theorem trace_raise_counterexample:
  "fst (call (fst (trace (\<lambda>v. Inr (str_int v)) ''####'' 0 (failing_probe 1) state0)) [1] []
          (snd (trace (\<lambda>v. Inr (str_int v)) ''####'' 0 (failing_probe 1) state0)))
     = Inl (OtherError ''boom'')
   \<and> depth (snd (trace (\<lambda>v. Inr (str_int v)) ''####'' 0 (failing_probe 1) state0)) 0 = 0
   \<and> depth (snd (call (fst (trace (\<lambda>v. Inr (str_int v)) ''####'' 0 (failing_probe 1) state0))
                   [1] []
                   (snd (trace (\<lambda>v. Inr (str_int v)) ''####'' 0 (failing_probe 1) state0)))) 0
       = 1"
  by (simp add: trace_def trace_wrapper_def format_call_def Let_def print_def state0_def)

text \<open>
  C7 (amended). The trace wrapper, called with one positional argument that converts to
  text, prints the entering line indented by \<open>indent\<close> repeated \<open>depth\<close> times, and calls
  the wrapped function with the depth raised by one. When that call returns normally and has left
  the depth as it found it, the wrapper lowers the depth to its value before the call,
  prints the exiting line with the indentation of the entering line (the result
  converting to text), and returns the result. The indentation is proportional to the depth: its length is the depth times
  the length of \<open>indent\<close>. For the recursive \<^verbatim>\<open>fib\<close> every call returns with the depth
  restored; its own two lines are indented by its depth and all lines of its nested
  calls at least one level deeper.
\<close>

theorem trace_depth_unwinds:
  "(str x = Inr tx \<and> str r = Inr tr
     \<and> call f [x] kwargs
       (s\<lparr>stdout := stdout s @ [join [str_mul indent (depth s d), ''-->'',
                                         name f @ ''('' @ tx @ '')'']],
          depth := (depth s)(d := depth s d + 1)\<rparr>) = (Inr r, s3)
     \<and> depth s3 d = depth s d + 1
     \<longrightarrow> (\<exists>s'. call (fst (trace str indent d f s0)) [x] kwargs s = (Inr r, s')
            \<and> depth s' d = depth s d
            \<and> stdout s' = stdout s3 @ [join [str_mul indent (depth s d), ''<--'',
                                               name f @ ''('' @ tx @ '') == '', tr]]))
   \<and> length (str_mul indent k) = nat k * length indent
   \<and> ((\<forall>k. \<exists>h. hash [k] = Inr h)
     \<longrightarrow> (\<exists>v t' inner. fib hash istr c e m [n] [] t = (Inr v, t')
            \<and> depth t' e = depth t e
            \<and> stdout t' = stdout t
                  @ join [str_mul ''####'' (depth t e), ''-->'', ''fib('' @ istr n @ '')'']
                  # inner
                  @ [join [str_mul ''####'' (depth t e), ''<--'', ''fib('' @ istr n @ '') == '',
                           istr v]]
            \<and> (\<forall>l \<in> set inner. prefix (str_mul ''####'' (depth t e + 1)) l)))"
proof (intro conjI impI)
  assume a: "str x = Inr tx \<and> str r = Inr tr
     \<and> call f [x] kwargs
       (s\<lparr>stdout := stdout s @ [join [str_mul indent (depth s d), ''-->'',
                                         name f @ ''('' @ tx @ '')'']],
          depth := (depth s)(d := depth s d + 1)\<rparr>) = (Inr r, s3)
     \<and> depth s3 d = depth s d + 1"
  then have sx: "str x = Inr tx" and sr: "str r = Inr tr"
    and run: "call f [x] kwargs
       (s\<lparr>stdout := stdout s @ [join [str_mul indent (depth s d), ''-->'',
                                         name f @ ''('' @ tx @ '')'']],
          depth := (depth s)(d := depth s d + 1)\<rparr>) = (Inr r, s3)"
    and dep: "depth s3 d = depth s d + 1"
    by simp_all
  from trace_wrapper_returns [where str = str and indent = indent and d = d and f = f
      and x = x and kwargs = kwargs and s = s, OF sx sr run] dep
  show "\<exists>s'. call (fst (trace str indent d f s0)) [x] kwargs s = (Inr r, s')
            \<and> depth s' d = depth s d
            \<and> stdout s' = stdout s3 @ [join [str_mul indent (depth s d), ''<--'',
                                               name f @ ''('' @ tx @ '') == '', tr]]"
    by (simp add: trace_def)
next
  show "length (str_mul indent k) = nat k * length indent" by (rule length_str_mul)
next
  assume "\<forall>k. \<exists>h. hash [k] = Inr h"
  from fib_run [OF this, of istr c e m n t] obtain v t' inner where
    "fib hash istr c e m [n] [] t = (Inr v, t')" and "fib_post istr c e n t v t' inner"
    by blast
  then show "\<exists>v t' inner. fib hash istr c e m [n] [] t = (Inr v, t')
            \<and> depth t' e = depth t e
            \<and> stdout t' = stdout t
                  @ join [str_mul ''####'' (depth t e), ''-->'', ''fib('' @ istr n @ '')'']
                  # inner
                  @ [join [str_mul ''####'' (depth t e), ''<--'', ''fib('' @ istr n @ '') == '',
                           istr v]]
            \<and> (\<forall>l \<in> set inner. prefix (str_mul ''####'' (depth t e + 1)) l)"
    unfolding fib_post_def entering_def exiting_def by blast
qed

text \<open>\<^verbatim>\<open>trace("####")(n_ary(foo))(5)\<close>, and \<^verbatim>\<open>fib(3)\<close> from the fresh state.\<close>

theorem trace_depth_unwinds_witness:
  "call (n_ary foo_def) [5] []
      (state0\<lparr>stdout := ['' --> foo(5)''], depth := (depth state0)(0 := 1)\<rparr>)
     = (Inr 5, state0\<lparr>stdout := ['' --> foo(5)''], depth := (depth state0)(0 := 1)\<rparr>)
   \<and> depth (state0\<lparr>stdout := ['' --> foo(5)''], depth := (depth state0)(0 := 1)\<rparr>) 0
       = depth state0 0 + 1
   \<and> (\<exists>s'. call (fst (trace (\<lambda>v. Inr (str_int v)) ''####'' 0 (n_ary foo_def) state0))
                 [5] [] state0
               = (Inr 5, s')
          \<and> depth s' 0 = depth state0 0
          \<and> stdout s' = ['' --> foo(5)'', '' <-- foo(5) ==  5''])
   \<and> (\<forall>k. \<exists>h. hash_ints [k] = Inr h)
   \<and> (\<exists>v t' inner. fib hash_ints str_int 0 0 0 [3] [] state0 = (Inr v, t')
          \<and> depth t' 0 = depth state0 0
          \<and> stdout t' = '' --> fib(3)'' # inner @ ['' <-- fib(3) ==  3'']
          \<and> (\<forall>l \<in> set inner. prefix ''####'' l))"
proof -
  let ?f = "n_ary foo_def :: (int, unit) func"
  let ?s3 = "state0\<lparr>stdout := ['' --> foo(5)''], depth := (depth state0)(0 := 1)\<rparr>"
  have s5: "str_int 5 = ''5''" by (simp add: str_int_def str_nat.simps)
  have run0: "call ?f [5] [] ?s3 = (Inr 5, ?s3)" by simp
  have run: "call ?f [5] []
      (state0\<lparr>stdout := stdout state0 @ [join [str_mul ''####'' (depth state0 0), ''-->'',
                                         name ?f @ ''('' @ ''5'' @ '')'']],
          depth := (depth state0)(0 := depth state0 0 + 1)\<rparr>) = (Inr 5, ?s3)"
    by (simp add: state0_def str_mul_def)
  have conv: "(\<lambda>v. Inr (str_int v) :: exn + string) 5 = Inr ''5''" by (simp add: s5)
  have dep: "depth ?s3 0 = depth state0 0 + 1" by (simp add: state0_def)
  note inst = trace_depth_unwinds [where f = ?f and x = 5 and kwargs = "[]"
      and s = state0 and indent = "''####''" and d = 0 and str = "\<lambda>v. Inr (str_int v)"
      and tx = "''5''" and tr = "''5''" and r = 5
      and ?s3.0 = ?s3 and ?s0.0 = state0 and hash = hash_ints and istr = str_int and c = 0
      and e = 0 and m = 0 and n = 3 and t = state0]
  from conjunct1 [OF inst, THEN mp, OF conjI [OF conv conjI [OF conv conjI [OF run dep]]]]
  have first: "\<exists>s'. call (fst (trace (\<lambda>v. Inr (str_int v)) ''####'' 0 ?f state0)) [5] [] state0
               = (Inr 5, s')
          \<and> depth s' 0 = depth state0 0
          \<and> stdout s' = ['' --> foo(5)'', '' <-- foo(5) ==  5'']"
    by (simp add: s5 state0_def str_mul_def)
  from conjunct2 [OF conjunct2 [OF inst], THEN mp, OF hash_ints_total]
  obtain v t' inner where
    f: "fib hash_ints str_int 0 0 0 [3] [] state0 = (Inr v, t')"
    and d: "depth t' 0 = depth state0 0"
    and o: "stdout t' = stdout state0
                  @ join [str_mul ''####'' (depth state0 0), ''-->'', ''fib('' @ str_int 3 @ '')'']
                  # inner
                  @ [join [str_mul ''####'' (depth state0 0), ''<--'', ''fib('' @ str_int 3 @ '') == '',
                           str_int v]]"
    and p: "\<forall>l \<in> set inner. prefix (str_mul ''####'' (depth state0 0 + 1)) l"
    by blast
  from f fib_3_run have v: "v = 3" by simp
  have s3: "str_int 3 = ''3''" by (simp add: str_int_def str_nat.simps)
  have "stdout t' = '' --> fib(3)'' # inner @ ['' <-- fib(3) ==  3'']"
    using o v by (simp add: s3 state0_def str_mul_def)
  moreover have "\<forall>l \<in> set inner. prefix ''####'' l"
    using p by (simp add: state0_def str_mul_def)
  ultimately have "\<exists>v t' inner. fib hash_ints str_int 0 0 0 [3] [] state0 = (Inr v, t')
          \<and> depth t' 0 = depth state0 0
          \<and> stdout t' = '' --> fib(3)'' # inner @ ['' <-- fib(3) ==  3'']
          \<and> (\<forall>l \<in> set inner. prefix ''####'' l)"
    using f d by blast
  with run0 dep first hash_ints_total show ?thesis by blast
qed

section \<open>Names and documentation strings\<close>

text \<open>
  C8. Each of \<open>countcalls\<close>, \<open>memo\<close>, \<open>n_ary\<close> and \<open>trace\<close> returns a wrapper whose
  \<^verbatim>\<open>__name__\<close> and \<^verbatim>\<open>__doc__\<close> are those of the function it wraps.
\<close>

theorem decorators_keep_name_and_doc:
  "name (fst (countcalls w f s)) = name f \<and> doc (fst (countcalls w f s)) = doc f
   \<and> name (fst (memo hash w f s)) = name f \<and> doc (fst (memo hash w f s)) = doc f
   \<and> name (n_ary f) = name f \<and> doc (n_ary f) = doc f
   \<and> name (fst (trace str indent d f s)) = name f \<and> doc (fst (trace str indent d f s)) = doc f"
  by (simp add: countcalls_def memo_def n_ary_def trace_def)

end
